theory Spec2Isabelle
  imports Complex_Main "HOL-Library.Sublist"
begin

section \<open>JavaScript values and strings\<close>

text \<open>
  Message payloads are untyped JSON in the source (\<^verbatim>\<open>unknown\<close> behind type guards), so
  they are embedded as a datatype of JavaScript values. An object is an association list
  read with \<open>map_of\<close>. Strings are \<open>string\<close>; the model covers ASCII text, where
  \<^verbatim>\<open>toLowerCase\<close> maps \<open>A..Z\<close> to \<open>a..z\<close> and \<^verbatim>\<open>trim\<close> strips
  TAB, LF, VT, FF, CR and SPACE.
\<close>

datatype json =
    JUndefined
  | JNull
  | JBool bool
  | JNum int
  | JStr string
  | JArr "json list"
  | JObj "(string \<times> json) list"

text \<open>JavaScript truthiness, as used by \<^verbatim>\<open>if (message.content)\<close>.\<close>

fun truthy :: "json \<Rightarrow> bool" where
  "truthy JUndefined = False"
| "truthy JNull = False"
| "truthy (JBool b) = b"
| "truthy (JNum n) = (n \<noteq> 0)"
| "truthy (JStr s) = (s \<noteq> [])"
| "truthy (JArr xs) = True"
| "truthy (JObj fs) = True"

definition lower_char :: "char \<Rightarrow> char" where
  "lower_char c =
     (case map_of (zip ''ABCDEFGHIJKLMNOPQRSTUVWXYZ'' ''abcdefghijklmnopqrstuvwxyz'') c of
        Some d \<Rightarrow> d
      | None \<Rightarrow> c)"

definition toLowerCase :: "string \<Rightarrow> string" where
  "toLowerCase s = map lower_char s"

definition is_whitespace :: "char \<Rightarrow> bool" where
  "is_whitespace c =
     (c \<in> set [CHR 0x09, CHR 0x0A, CHR 0x0B, CHR 0x0C, CHR 0x0D, CHR '' ''])"

definition trim :: "string \<Rightarrow> string" where
  "trim s = rev (dropWhile is_whitespace (rev (dropWhile is_whitespace s)))"

text \<open>\<^verbatim>\<open>parts.join(sep)\<close>\<close>

fun join :: "string \<Rightarrow> string list \<Rightarrow> string" where
  "join sep [] = []"
| "join sep [x] = x"
| "join sep (x # y # ys) = x @ sep @ join sep (y # ys)"

text \<open>
  \<^verbatim>\<open>s.indexOf(q, pos)\<close>: the least index \<open>k \<ge> min pos (length s)\<close> at which \<open>q\<close>
  occurs in \<open>s\<close>; \<open>None\<close> stands for \<open>-1\<close>. The empty string occurs at every
  position, including \<open>length s\<close>.
\<close>

fun indexOf_aux :: "string \<Rightarrow> string \<Rightarrow> nat \<Rightarrow> nat option" where
  "indexOf_aux [] q k = (if q = [] then Some k else None)"
| "indexOf_aux (x # xs) q k =
     (if prefix q (x # xs) then Some k else indexOf_aux xs q (Suc k))"

definition indexOf :: "string \<Rightarrow> string \<Rightarrow> nat \<Rightarrow> nat option" where
  "indexOf s q pos = (let p = min pos (length s) in indexOf_aux (drop p s) q p)"

section \<open>Text extractors (searchIndex.ts)\<close>

record ClaudeMessage =
  uuid :: string
  content :: json
  toolUse :: json
  toolUseResult :: json

definition isRecord :: "json \<Rightarrow> bool" where
  "isRecord v = (case v of JObj fs \<Rightarrow> True | _ \<Rightarrow> False)"

text \<open>\<^verbatim>\<open>obj[key]\<close>\<close>

fun getProp :: "json \<Rightarrow> string \<Rightarrow> json" where
  "getProp (JObj fs) key = (case map_of fs key of Some v \<Rightarrow> v | None \<Rightarrow> JUndefined)"
| "getProp v key = JUndefined"

text \<open>\<^verbatim>\<open>key in obj && typeof obj[key] === "string"\<close>\<close>

definition hasStringProperty :: "json \<Rightarrow> string \<Rightarrow> bool" where
  "hasStringProperty obj key = (case getProp obj key of JStr s \<Rightarrow> True | _ \<Rightarrow> False)"

text \<open>The cast \<^verbatim>\<open>obj[key] as string\<close>, only applied under \<open>hasStringProperty\<close>.\<close>

fun asString :: "json \<Rightarrow> string" where
  "asString (JStr s) = s"
| "asString v = []"

text \<open>
  One round of the loop \<^verbatim>\<open>for (const item of message.content)\<close> of
  \<^verbatim>\<open>extractSearchableText\<close>; \<open>parts @ [s]\<close> is \<^verbatim>\<open>parts.push(s)\<close>. The two
  tests on a record item are separate statements, not an \<^verbatim>\<open>else if\<close>.
\<close>

definition pushContentItem :: "string list \<Rightarrow> json \<Rightarrow> string list" where
  "pushContentItem parts item =
     (case item of
        JStr s \<Rightarrow> parts @ [s]
      | _ \<Rightarrow>
          if isRecord item then
            (let parts1 = (if hasStringProperty item ''text''
                           then parts @ [asString (getProp item ''text'')] else parts);
                 parts2 = (if hasStringProperty item ''thinking''
                           then parts1 @ [asString (getProp item ''thinking'')] else parts1)
             in parts2)
          else parts)"

text \<open>
  \<^verbatim>\<open>extractSearchableText\<close>. No operation of its \<^verbatim>\<open>try\<close> block can throw on a
  value of type \<open>json\<close>, so the \<^verbatim>\<open>catch\<close> branch has no counterpart here.
\<close>

definition extractSearchableText :: "ClaudeMessage \<Rightarrow> string" where
  "extractSearchableText message =
     (let parts0 = [];
          parts1 =
            (if truthy (content message) then
               (case content message of
                  JStr s \<Rightarrow> parts0 @ [s]
                | JArr items \<Rightarrow> foldl pushContentItem parts0 items
                | _ \<Rightarrow> parts0)
             else parts0);
          parts2 =
            (if isRecord (toolUse message) \<and> hasStringProperty (toolUse message) ''name''
             then parts1 @ [asString (getProp (toolUse message) ''name'')] else parts1);
          parts3 =
            (if truthy (toolUseResult message) then
               (let result = toolUseResult message in
                case result of
                  JStr s \<Rightarrow> parts2 @ [s]
                | _ \<Rightarrow>
                    if isRecord result then
                      (let r1 = (if hasStringProperty result ''stdout''
                                 then parts2 @ [asString (getProp result ''stdout'')] else parts2);
                           r2 = (if hasStringProperty result ''stderr''
                                 then r1 @ [asString (getProp result ''stderr'')] else r1);
                           r3 = (if hasStringProperty result ''content''
                                 then r2 @ [asString (getProp result ''content'')] else r2)
                       in r3)
                    else parts2)
             else parts2)
      in join '' '' parts3)"

text \<open>One round of the loop of \<^verbatim>\<open>extractToolIds\<close>.\<close>

definition pushToolIdItem :: "string list \<Rightarrow> json \<Rightarrow> string list" where
  "pushToolIdItem ids item =
     (if isRecord item then
        (let ids1 = (if getProp item ''type'' = JStr ''tool_use'' \<and> hasStringProperty item ''id''
                     then ids @ [asString (getProp item ''id'')] else ids);
             ids2 = (if getProp item ''type'' = JStr ''tool_result''
                        \<and> hasStringProperty item ''tool_use_id''
                     then ids1 @ [asString (getProp item ''tool_use_id'')] else ids1)
         in ids2)
      else ids)"

definition extractToolIds :: "ClaudeMessage \<Rightarrow> string" where
  "extractToolIds message =
     (let ids0 = [];
          ids1 = (case content message of
                    JArr items \<Rightarrow> foldl pushToolIdItem ids0 items
                  | _ \<Rightarrow> ids0);
          ids2 = (if isRecord (toolUse message) \<and> hasStringProperty (toolUse message) ''id''
                  then ids1 @ [asString (getProp (toolUse message) ''id'')] else ids1)
      in join '' '' ids2)"

section \<open>Indexing engine and match enumeration (searchIndex.ts)\<close>

record SearchDocument =
  doc_uuid :: string
  doc_messageIndex :: nat
  doc_text :: string

text \<open>
  The FlexSearch library is not part of the repository. A document index is embedded as the
  list of documents added to it, and the library's \<^verbatim>\<open>index.search(query, {limit, enrich})\<close>
  is a parameter \<open>flex\<close> of the functions below: given the documents, the query and the
  limit it either throws (\<open>Inl\<close>) or returns one result per indexed field, whose items are
  plain ids or enriched results.
\<close>

type_synonym FlexSearchDocumentIndex = "SearchDocument list"

datatype ResultItem =
    PlainId string
  | EnrichedResult string "SearchDocument option"

record FieldResult =
  fr_field :: string
  fr_result :: "ResultItem list option"

datatype error = SearchFailure string

type_synonym FlexSearch =
  "FlexSearchDocumentIndex \<Rightarrow> string \<Rightarrow> nat \<Rightarrow> error + FieldResult list"

fun extractUuidFromResult :: "ResultItem \<Rightarrow> string" where
  "extractUuidFromResult (PlainId s) = s"
| "extractUuidFromResult (EnrichedResult i d) = i"

datatype SearchFilterType = Content | ToolId

record SearchMatch =
  messageUuid :: string
  messageIndex :: nat
  matchIndex :: nat
  matchCount :: nat

record MessageSearchIndex =
  contentIndex :: FlexSearchDocumentIndex
  toolIdIndex :: FlexSearchDocumentIndex
  messageMap :: "string \<rightharpoonup> nat"
  indexMessages :: "ClaudeMessage list"
  isBuilt :: bool

text \<open>The constructor and the field initialisers of the class.\<close>

definition newMessageSearchIndex :: MessageSearchIndex where
  "newMessageSearchIndex =
     \<lparr>contentIndex = [], toolIdIndex = [], messageMap = Map.empty,
      indexMessages = [], isBuilt = False\<rparr>"

definition clear :: "MessageSearchIndex \<Rightarrow> MessageSearchIndex" where
  "clear idx =
     idx\<lparr>contentIndex := [], toolIdIndex := [], messageMap := Map.empty,
         indexMessages := [], isBuilt := False\<rparr>"

text \<open>The body of \<^verbatim>\<open>messages.forEach((message, index) => ...)\<close> in \<^verbatim>\<open>build\<close>.\<close>

definition buildStep :: "MessageSearchIndex \<Rightarrow> ClaudeMessage \<times> nat \<Rightarrow> MessageSearchIndex" where
  "buildStep idx mi =
     (let message = fst mi; index = snd mi;
          text = extractSearchableText message;
          idx1 = (if trim text \<noteq> [] then
                    idx\<lparr>contentIndex := contentIndex idx @
                      [\<lparr>doc_uuid = uuid message, doc_messageIndex = index,
                        doc_text = toLowerCase text\<rparr>]\<rparr>
                  else idx);
          toolIds = extractToolIds message;
          idx2 = (if trim toolIds \<noteq> [] then
                    idx1\<lparr>toolIdIndex := toolIdIndex idx1 @
                      [\<lparr>doc_uuid = uuid message, doc_messageIndex = index,
                        doc_text = toLowerCase toolIds\<rparr>]\<rparr>
                  else idx1)
      in idx2\<lparr>messageMap := (messageMap idx2)(uuid message \<mapsto> index)\<rparr>)"

definition build :: "MessageSearchIndex \<Rightarrow> ClaudeMessage list \<Rightarrow> MessageSearchIndex" where
  "build idx msgs =
     (let idx0 = clear idx;
          idx1 = idx0\<lparr>indexMessages := msgs\<rparr>;
          idx2 = foldl buildStep idx1 (zip msgs [0..<length msgs])
      in idx2\<lparr>isBuilt := True\<rparr>)"

text \<open>
  The loop of \<^verbatim>\<open>findAllMatchesInText\<close>:
  \<^verbatim>\<open>while ((pos = lowerText.indexOf(lowerQuery, pos)) !== -1) { count++; pos += lowerQuery.length; }\<close>
  With an empty query the loop never ends, hence the value \<open>None\<close>.
\<close>

partial_function (option) findAllMatchesLoop :: "string \<Rightarrow> string \<Rightarrow> nat \<Rightarrow> nat \<Rightarrow> nat option" where
  "findAllMatchesLoop lowerText lowerQuery count pos =
     (case indexOf lowerText lowerQuery pos of
        None \<Rightarrow> Some count
      | Some p \<Rightarrow> findAllMatchesLoop lowerText lowerQuery (count + 1) (p + length lowerQuery))"

declare findAllMatchesLoop.simps [code]

definition findAllMatchesInText :: "string \<Rightarrow> string \<Rightarrow> nat option" where
  "findAllMatchesInText text query =
     findAllMatchesLoop (toLowerCase text) (toLowerCase query) 0 0"

text \<open>\<^verbatim>\<open>Set.add\<close> on a set kept in insertion order.\<close>

definition setAdd :: "string list \<Rightarrow> string \<Rightarrow> string list" where
  "setAdd s x = (if x \<in> set s then s else s @ [x])"

definition collectUuids :: "FieldResult list \<Rightarrow> string list" where
  "collectUuids rs =
     foldl (\<lambda>matchedUuids fieldResult.
              case fr_result fieldResult of
                None \<Rightarrow> matchedUuids
              | Some items \<Rightarrow>
                  foldl (\<lambda>m item. setAdd m (extractUuidFromResult item)) matchedUuids items)
           [] rs"

text \<open>The matches pushed for one uuid by the body of \<^verbatim>\<open>matchedUuids.forEach\<close>.\<close>

definition matchesOfUuid ::
    "MessageSearchIndex \<Rightarrow> SearchFilterType \<Rightarrow> string \<Rightarrow> string \<Rightarrow> SearchMatch list option" where
  "matchesOfUuid idx ft lowerQuery u =
     (case messageMap idx u of
        None \<Rightarrow> Some []
      | Some mIndex \<Rightarrow>
          if length (indexMessages idx) \<le> mIndex then Some []
          else
            (let message = indexMessages idx ! mIndex;
                 messageText = (if ft = ToolId then extractToolIds message
                                else extractSearchableText message)
             in case findAllMatchesInText messageText lowerQuery of
                  None \<Rightarrow> None
                | Some mCount \<Rightarrow>
                    Some (map (\<lambda>i. \<lparr>messageUuid = u, messageIndex = mIndex,
                                      matchIndex = i, matchCount = mCount\<rparr>) [0..<mCount])))"

fun collectMatches ::
    "MessageSearchIndex \<Rightarrow> SearchFilterType \<Rightarrow> string \<Rightarrow> string list \<Rightarrow> SearchMatch list
       \<Rightarrow> SearchMatch list option" where
  "collectMatches idx ft lowerQuery [] allMatches = Some allMatches"
| "collectMatches idx ft lowerQuery (u # us) allMatches =
     (case matchesOfUuid idx ft lowerQuery u of
        None \<Rightarrow> None
      | Some ms \<Rightarrow> collectMatches idx ft lowerQuery us (allMatches @ ms))"

text \<open>The comparator handed to \<^verbatim>\<open>allMatches.sort\<close>.\<close>

definition compareMatches :: "SearchMatch \<Rightarrow> SearchMatch \<Rightarrow> int" where
  "compareMatches a b =
     (if messageIndex a \<noteq> messageIndex b then int (messageIndex b) - int (messageIndex a)
      else int (matchIndex b) - int (matchIndex a))"

text \<open>
  \<^verbatim>\<open>Array.prototype.sort(cmp)\<close> is a stable sort; it is embedded as insertion sort, which
  puts \<open>x\<close> before the first \<open>y\<close> with \<open>cmp x y \<le> 0\<close>.
\<close>

fun insertBy :: "('a \<Rightarrow> 'a \<Rightarrow> int) \<Rightarrow> 'a \<Rightarrow> 'a list \<Rightarrow> 'a list" where
  "insertBy cmp x [] = [x]"
| "insertBy cmp x (y # ys) = (if cmp x y \<le> 0 then x # y # ys else y # insertBy cmp x ys)"

definition sortBy :: "('a \<Rightarrow> 'a \<Rightarrow> int) \<Rightarrow> 'a list \<Rightarrow> 'a list" where
  "sortBy cmp xs = foldr (insertBy cmp) xs []"

text \<open>
  \<^verbatim>\<open>MessageSearchIndex.search\<close>. The outcome is \<open>None\<close> if the call does not return,
  \<open>Some (Inl e)\<close> if it throws and \<open>Some (Inr ms)\<close> if it returns \<open>ms\<close>.
\<close>

definition search ::
    "FlexSearch \<Rightarrow> MessageSearchIndex \<Rightarrow> string \<Rightarrow> SearchFilterType
       \<Rightarrow> (error + SearchMatch list) option" where
  "search flex idx query ft =
     (if \<not> isBuilt idx \<or> trim query = [] then Some (Inr [])
      else
        (let lowerQuery = toLowerCase query;
             index = (if ft = ToolId then toolIdIndex idx else contentIndex idx)
         in case flex index lowerQuery 1000 of
              Inl e \<Rightarrow> Some (Inl e)
            | Inr rs \<Rightarrow>
                (case collectMatches idx ft lowerQuery (collectUuids rs) [] of
                   None \<Rightarrow> None
                 | Some allMatches \<Rightarrow> Some (Inr (sortBy compareMatches allMatches)))))"

section \<open>Navigation state machine (useAppStore.ts)\<close>

text \<open>
  \<^verbatim>\<open>currentMatchIndex\<close> is declared as a \<^verbatim>\<open>number\<close>. The record leaves the type \<open>'n\<close>
  of that field open: the actions below are stated at \<open>int\<close>, the values that the
  actions produce from integer arguments, and \<open>goToMatchIndexNumber\<close> is the jump at
  every value of a \<^verbatim>\<open>number\<close>.
\<close>

record 'n SearchState =
  query :: string
  matches :: "SearchMatch list"
  currentMatchIndex :: 'n
  isSearching :: bool
  filterType :: SearchFilterType
  results :: "ClaudeMessage list"

text \<open>The slice of the store that the search actions read and write.\<close>

record 'n AppStore =
  messages :: "ClaudeMessage list"
  sessionSearch :: "'n SearchState"

definition createEmptySearchState :: "SearchFilterType \<Rightarrow> int SearchState" where
  "createEmptySearchState ft =
     \<lparr>query = [], matches = [], currentMatchIndex = - 1, isSearching = False,
      filterType = ft, results = []\<rparr>"

text \<open>The store's initial \<^verbatim>\<open>sessionSearch\<close>.\<close>

definition initialSearchState :: "int SearchState" where
  "initialSearchState =
     \<lparr>query = [], matches = [], currentMatchIndex = - 1, isSearching = False,
      filterType = Content, results = []\<rparr>"

text \<open>JavaScript's \<^verbatim>\<open>%\<close> on integers: the remainder takes the sign of the dividend.\<close>

definition js_rem :: "int \<Rightarrow> int \<Rightarrow> int" where
  "js_rem a b = sgn a * (\<bar>a\<bar> mod \<bar>b\<bar>)"

text \<open>
  \<^verbatim>\<open>setSessionSearchQuery\<close>; \<open>idx\<close> is the module's singleton index. \<open>None\<close> if the
  call does not return.
\<close>

definition setSessionSearchQuery ::
    "FlexSearch \<Rightarrow> MessageSearchIndex \<Rightarrow> int AppStore \<Rightarrow> string \<Rightarrow> int AppStore option" where
  "setSessionSearchQuery flex idx st q =
     (let msgs = messages st; ft = filterType (sessionSearch st) in
      if trim q = [] then
        Some (st\<lparr>sessionSearch := createEmptySearchState (filterType (sessionSearch st))\<rparr>)
      else
        (let st1 = st\<lparr>sessionSearch := (sessionSearch st)\<lparr>query := q, isSearching := True\<rparr>\<rparr>
         in case search flex idx q ft of
              None \<Rightarrow> None
            | Some (Inr searchResults) \<Rightarrow>
                (let ms = map (\<lambda>r. \<lparr>messageUuid = messageUuid r, messageIndex = messageIndex r,
                                      matchIndex = matchIndex r, matchCount = matchCount r\<rparr>)
                            (filter (\<lambda>r. 0 \<le> messageIndex r \<and> messageIndex r < length msgs)
                               searchResults)
                 in Some (st1\<lparr>sessionSearch :=
                      \<lparr>query = q, matches = ms,
                       currentMatchIndex = (if length ms > 0 then 0 else - 1),
                       isSearching = False,
                       filterType = filterType (sessionSearch st1),
                       results = map (\<lambda>m. msgs ! messageIndex m)
                                   (filter (\<lambda>m. messageIndex m < length msgs) ms)\<rparr>\<rparr>))
            | Some (Inl e) \<Rightarrow>
                Some (st1\<lparr>sessionSearch :=
                  \<lparr>query = q, matches = [], currentMatchIndex = - 1, isSearching = False,
                   filterType = filterType (sessionSearch st1), results = []\<rparr>\<rparr>)))"

definition goToNextMatch :: "int AppStore \<Rightarrow> int AppStore" where
  "goToNextMatch st =
     (let ss = sessionSearch st in
      if length (matches ss) = 0 then st
      else
        (let nextIndex = js_rem (currentMatchIndex ss + 1) (int (length (matches ss)))
         in st\<lparr>sessionSearch := ss\<lparr>currentMatchIndex := nextIndex\<rparr>\<rparr>))"

definition goToPrevMatch :: "int AppStore \<Rightarrow> int AppStore" where
  "goToPrevMatch st =
     (let ss = sessionSearch st in
      if length (matches ss) = 0 then st
      else
        (let totalMatches = int (length (matches ss));
             prevIndex = (if currentMatchIndex ss \<le> 0 then totalMatches - 1
                          else currentMatchIndex ss - 1)
         in st\<lparr>sessionSearch := ss\<lparr>currentMatchIndex := prevIndex\<rparr>\<rparr>))"

text \<open>
  \<^verbatim>\<open>goToMatchIndex\<close> at an integer argument; the rejected call only logs a warning and
  returns.
\<close>

definition goToMatchIndex :: "int AppStore \<Rightarrow> int \<Rightarrow> int AppStore" where
  "goToMatchIndex st i =
     (let ss = sessionSearch st; ms = matches ss in
      if i < 0 \<or> i \<ge> int (length ms) then st
      else st\<lparr>sessionSearch := ss\<lparr>currentMatchIndex := i\<rparr>\<rparr>)"

text \<open>
  The values of a JavaScript \<^verbatim>\<open>number\<close>: \<^verbatim>\<open>NaN\<close>, the two infinities and the finite
  values, taken as rationals (rounding is not modelled). A comparison with \<^verbatim>\<open>NaN\<close> is
  false.
\<close>

datatype number = NaN | NegInfinity | Num rat | Infinity

text \<open>\<^verbatim>\<open>x < r\<close> and \<^verbatim>\<open>x >= r\<close> for a finite \<open>r\<close>.\<close>

fun numLess :: "number \<Rightarrow> rat \<Rightarrow> bool" where
  "numLess NaN r = False"
| "numLess NegInfinity r = True"
| "numLess (Num a) r = (a < r)"
| "numLess Infinity r = False"

fun numGreaterEq :: "number \<Rightarrow> rat \<Rightarrow> bool" where
  "numGreaterEq NaN r = False"
| "numGreaterEq NegInfinity r = False"
| "numGreaterEq (Num a) r = (a \<ge> r)"
| "numGreaterEq Infinity r = True"

text \<open>
  \<^verbatim>\<open>goToMatchIndex(index: number)\<close> at every value of its parameter type. The guard
  \<^verbatim>\<open>index < 0 || index >= matches.length\<close> compares numbers; it does not test that the
  index is an integer.
\<close>

definition goToMatchIndexNumber :: "number AppStore \<Rightarrow> number \<Rightarrow> number AppStore" where
  "goToMatchIndexNumber st index =
     (let ss = sessionSearch st; ms = matches ss in
      if numLess index 0 \<or> numGreaterEq index (of_nat (length ms)) then st
      else st\<lparr>sessionSearch := ss\<lparr>currentMatchIndex := index\<rparr>\<rparr>)"

text \<open>A store with an integer cursor, read as a store with a \<^verbatim>\<open>number\<close> cursor.\<close>

definition numberStore :: "int AppStore \<Rightarrow> number AppStore" where
  "numberStore st =
     \<lparr>messages = messages st,
      sessionSearch =
        \<lparr>query = query (sessionSearch st), matches = matches (sessionSearch st),
         currentMatchIndex = Num (of_int (currentMatchIndex (sessionSearch st))),
         isSearching = isSearching (sessionSearch st),
         filterType = filterType (sessionSearch st),
         results = results (sessionSearch st)\<rparr>\<rparr>"

definition clearSessionSearch :: "int AppStore \<Rightarrow> int AppStore" where
  "clearSessionSearch st =
     st\<lparr>sessionSearch := createEmptySearchState (filterType (sessionSearch st))\<rparr>"

definition setSearchFilterType :: "int AppStore \<Rightarrow> SearchFilterType \<Rightarrow> int AppStore" where
  "setSearchFilterType st ft = st\<lparr>sessionSearch := createEmptySearchState ft\<rparr>"

text \<open>
  States of the store reachable from its initial search state by the six search actions,
  the jump taking an integer argument. The index consulted by a query is arbitrary at every
  step: it is rebuilt between actions whenever a session is loaded.
\<close>

inductive reachable :: "FlexSearch \<Rightarrow> int AppStore \<Rightarrow> bool" for flex :: FlexSearch where
  init: "reachable flex \<lparr>messages = msgs, sessionSearch = initialSearchState\<rparr>"
| setQuery: "reachable flex st \<Longrightarrow> setSessionSearchQuery flex idx st q = Some st'
               \<Longrightarrow> reachable flex st'"
| goNext: "reachable flex st \<Longrightarrow> reachable flex (goToNextMatch st)"
| goPrev: "reachable flex st \<Longrightarrow> reachable flex (goToPrevMatch st)"
| jumpTo: "reachable flex st \<Longrightarrow> reachable flex (goToMatchIndex st i)"
| setFilterType: "reachable flex st \<Longrightarrow> reachable flex (setSearchFilterType st ft)"
| clearSearch: "reachable flex st \<Longrightarrow> reachable flex (clearSessionSearch st)"

text \<open>The invariant of \<^verbatim>\<open>SearchState\<close>: the cursor is \<open>-1\<close> or an index into the matches.\<close>

definition cursorValid :: "int SearchState \<Rightarrow> bool" where
  "cursorValid ss =
     (currentMatchIndex ss = - 1
      \<or> (0 \<le> currentMatchIndex ss \<and> currentMatchIndex ss < int (length (matches ss))))"

text \<open>The same invariant for a cursor that is a \<^verbatim>\<open>number\<close>.\<close>

definition cursorValidNumber :: "number SearchState \<Rightarrow> bool" where
  "cursorValidNumber ss =
     (currentMatchIndex ss = Num (- 1)
      \<or> currentMatchIndex ss \<in> set (map (\<lambda>k. Num (of_nat k)) [0..<length (matches ss)]))"

section \<open>Specification-level definitions\<close>

text \<open>
  The occurrence count in the specification's words: scan the text from left to right; at
  an occurrence of the query count one and move on by the query's length, otherwise move on
  by one character.
\<close>

function countNonOverlapping :: "string \<Rightarrow> string \<Rightarrow> nat" where
  "countNonOverlapping text q =
     (if q = [] \<or> text = [] then 0
      else if prefix q text then 1 + countNonOverlapping (drop (length q) text) q
      else countNonOverlapping (tl text) q)"
  by pat_completeness auto
termination
  by (relation "measure (\<lambda>(text, q). length text)") auto

declare countNonOverlapping.simps [simp del]

text \<open>The string-valued field \<open>key\<close> of \<open>obj\<close>, if there is one.\<close>

definition stringField :: "json \<Rightarrow> string \<Rightarrow> string list" where
  "stringField obj key = (case getProp obj key of JStr s \<Rightarrow> [s] | _ \<Rightarrow> [])"

text \<open>
  The content extractor in the specification's words: a content element contributes itself
  if it is a string, else its \<open>text\<close> field, else its \<open>thinking\<close> field.
\<close>

definition itemTextSpec :: "json \<Rightarrow> string list" where
  "itemTextSpec item =
     (case item of
        JStr s \<Rightarrow> [s]
      | _ \<Rightarrow> if stringField item ''text'' \<noteq> [] then stringField item ''text''
             else stringField item ''thinking'')"

definition contentPartsSpec :: "json \<Rightarrow> string list" where
  "contentPartsSpec c =
     (case c of
        JStr s \<Rightarrow> [s]
      | JArr items \<Rightarrow> concat (map itemTextSpec items)
      | _ \<Rightarrow> [])"

definition toolResultPartsSpec :: "json \<Rightarrow> string list" where
  "toolResultPartsSpec r =
     (case r of
        JStr s \<Rightarrow> [s]
      | _ \<Rightarrow> stringField r ''stdout'' @ stringField r ''stderr'' @ stringField r ''content'')"

definition extractContentTextSpec :: "ClaudeMessage \<Rightarrow> string" where
  "extractContentTextSpec m =
     join '' '' (contentPartsSpec (content m) @ stringField (toolUse m) ''name''
                 @ toolResultPartsSpec (toolUseResult m))"

text \<open>
  The amended wording: a record element contributes its \<open>text\<close> field and then its
  \<open>thinking\<close> field, each when it is a string; an empty string as \<open>content\<close> or as
  \<open>toolUseResult\<close> contributes no part.
\<close>

definition itemTextAmended :: "json \<Rightarrow> string list" where
  "itemTextAmended item =
     (case item of
        JStr s \<Rightarrow> [s]
      | _ \<Rightarrow> stringField item ''text'' @ stringField item ''thinking'')"

definition contentPartsAmended :: "json \<Rightarrow> string list" where
  "contentPartsAmended c =
     (case c of
        JStr s \<Rightarrow> (if s = [] then [] else [s])
      | JArr items \<Rightarrow> concat (map itemTextAmended items)
      | _ \<Rightarrow> [])"

definition toolResultPartsAmended :: "json \<Rightarrow> string list" where
  "toolResultPartsAmended r =
     (case r of
        JStr s \<Rightarrow> (if s = [] then [] else [s])
      | _ \<Rightarrow> stringField r ''stdout'' @ stringField r ''stderr'' @ stringField r ''content'')"

definition extractContentTextAmended :: "ClaudeMessage \<Rightarrow> string" where
  "extractContentTextAmended m =
     join '' '' (contentPartsAmended (content m) @ stringField (toolUse m) ''name''
                 @ toolResultPartsAmended (toolUseResult m))"

section \<open>Sample data\<close>

text \<open>
  A stand-in for the library in the examples below: it answers with the documents whose text
  contains the query, up to the limit, as one enriched result for the field \<open>text\<close>.
\<close>

definition substringEngine :: FlexSearch where
  "substringEngine docs q limit =
     Inr [\<lparr>fr_field = ''text'',
           fr_result = Some (map (\<lambda>d. EnrichedResult (doc_uuid d) (Some d))
                              (take limit (filter (\<lambda>d. indexOf (doc_text d) q 0 \<noteq> None) docs)))\<rparr>]"

text \<open>A library call that throws.\<close>

definition failingEngine :: FlexSearch where
  "failingEngine docs q limit = Inl (SearchFailure ''index unavailable'')"

definition textMessage :: "string \<Rightarrow> string \<Rightarrow> ClaudeMessage" where
  "textMessage u s = \<lparr>uuid = u, content = JStr s, toolUse = JUndefined, toolUseResult = JUndefined\<rparr>"

text \<open>The three-message session of the specification's end-to-end scenario.\<close>

definition sampleMessages :: "ClaudeMessage list" where
  "sampleMessages =
     [textMessage ''m0'' ''hello world'', textMessage ''m1'' ''say hello'',
      textMessage ''m2'' ''goodbye'']"

definition sampleIndex :: MessageSearchIndex where
  "sampleIndex = build newMessageSearchIndex sampleMessages"

definition sampleStore :: "int AppStore" where
  "sampleStore = \<lparr>messages = sampleMessages, sessionSearch = initialSearchState\<rparr>"

text \<open>The matches of the query \<open>hello\<close> in the sample session, and the store after that query.\<close>

definition sampleMatches :: "SearchMatch list" where
  "sampleMatches =
     [\<lparr>messageUuid = ''m1'', messageIndex = 1, matchIndex = 0, matchCount = 1\<rparr>,
      \<lparr>messageUuid = ''m0'', messageIndex = 0, matchIndex = 0, matchCount = 1\<rparr>]"

definition searchedStore :: "int AppStore" where
  "searchedStore =
     \<lparr>messages = sampleMessages,
      sessionSearch =
        \<lparr>query = ''Hello'', matches = sampleMatches, currentMatchIndex = 0,
         isSearching = False, filterType = Content,
         results = [textMessage ''m1'' ''say hello'', textMessage ''m0'' ''hello world'']\<rparr>\<rparr>"

section \<open>Strings\<close>

lemma toLowerCase_Nil_iff: "toLowerCase s = [] \<longleftrightarrow> s = []"
  by (simp add: toLowerCase_def)

lemma trim_Nil_iff: "trim s = [] \<longleftrightarrow> (\<forall>c \<in> set s. is_whitespace c)"
proof
  assume "trim s = []"
  then have "\<forall>c \<in> set (dropWhile is_whitespace s). is_whitespace c"
    by (simp add: trim_def)
  then have "dropWhile is_whitespace s = []"
    using hd_dropWhile[of is_whitespace s] by (cases "dropWhile is_whitespace s") auto
  then show "\<forall>c \<in> set s. is_whitespace c"
    by simp
next
  assume "\<forall>c \<in> set s. is_whitespace c"
  then have d: "dropWhile is_whitespace s = []" by simp
  show "trim s = []" unfolding trim_def d by simp
qed

lemma trim_nonempty: "trim s \<noteq> [] \<Longrightarrow> s \<noteq> []"
  by (auto simp: trim_def)

section \<open>The content extractor\<close>

lemma hasStringProperty_isRecord: "hasStringProperty obj key \<Longrightarrow> isRecord obj"
  by (cases obj) (simp_all add: hasStringProperty_def isRecord_def)

lemma push_stringField:
  "(if hasStringProperty obj key then parts @ [asString (getProp obj key)] else parts) =
     parts @ stringField obj key"
  by (cases "getProp obj key") (simp_all add: hasStringProperty_def stringField_def)

lemma stringField_not_record: "\<not> isRecord obj \<Longrightarrow> stringField obj key = []"
  by (cases obj) (simp_all add: stringField_def isRecord_def)

lemma pushContentItem_amended: "pushContentItem parts item = parts @ itemTextAmended item"
  by (cases item)
     (simp_all add: pushContentItem_def itemTextAmended_def Let_def push_stringField
        stringField_not_record isRecord_def)

lemma foldl_pushContentItem:
  "foldl pushContentItem parts items = parts @ concat (map itemTextAmended items)"
  by (induction items arbitrary: parts) (simp_all add: pushContentItem_amended)

lemma content_parts:
  "(if truthy c then
      (case c of JStr s \<Rightarrow> [] @ [s] | JArr items \<Rightarrow> foldl pushContentItem [] items | _ \<Rightarrow> [])
    else []) = contentPartsAmended c"
  by (cases c) (simp_all add: contentPartsAmended_def foldl_pushContentItem)

lemma toolName_parts:
  "(if isRecord t \<and> hasStringProperty t key then parts @ [asString (getProp t key)] else parts) =
     parts @ stringField t key"
  using push_stringField[of t key parts] hasStringProperty_isRecord[of t key]
  by (auto simp: stringField_not_record)

lemma toolResult_parts:
  "(if truthy r then
      (case r of
         JStr s \<Rightarrow> parts @ [s]
       | _ \<Rightarrow>
           if isRecord r then
             parts @ stringField r ''stdout'' @ stringField r ''stderr'' @ stringField r ''content''
           else parts)
    else parts) = parts @ toolResultPartsAmended r"
  by (cases r) (simp_all add: toolResultPartsAmended_def stringField_not_record isRecord_def)

text \<open>
  Claim C3, as amended: for every message the extractor returns the space-joined
  concatenation of the content parts (the content itself when it is a non-empty string;
  for an array, per element, the element itself if it is a string, else its \<open>text\<close> field
  followed by its \<open>thinking\<close> field, each when it is a string), then \<open>toolUse.name\<close> when
  it is a string, then the \<open>toolUseResult\<close> parts (the result itself when it is a non-empty
  string, else its string fields \<open>stdout\<close>, \<open>stderr\<close>, \<open>content\<close>).
\<close>

theorem extractSearchableText_amended:
  "extractSearchableText m = extractContentTextAmended m"
proof -
  have "extractSearchableText m =
          join '' '' (contentPartsAmended (content m) @ stringField (toolUse m) ''name''
                      @ toolResultPartsAmended (toolUseResult m))"
    unfolding extractSearchableText_def Let_def push_stringField toolName_parts
      content_parts append_assoc toolResult_parts ..
  then show ?thesis by (simp add: extractContentTextAmended_def)
qed

text \<open>
  Claim C3, as stated, fails on an element that carries both fields: the extractor takes
  the \<open>thinking\<close> field although a \<open>text\<close> field is present. It also fails on an empty
  string as content, which the extractor skips instead of joining it as a part.
\<close>

theorem extractSearchableText_spec_counterexample:
  "extractSearchableText
     \<lparr>uuid = ''u'', content = JArr [JObj [(''text'', JStr ''a''), (''thinking'', JStr ''b'')]],
      toolUse = JUndefined, toolUseResult = JUndefined\<rparr> = ''a b''
   \<and> extractContentTextSpec
     \<lparr>uuid = ''u'', content = JArr [JObj [(''text'', JStr ''a''), (''thinking'', JStr ''b'')]],
      toolUse = JUndefined, toolUseResult = JUndefined\<rparr> = ''a''
   \<and> extractSearchableText
     \<lparr>uuid = ''v'', content = JStr [], toolUse = JObj [(''name'', JStr ''Bash'')],
      toolUseResult = JUndefined\<rparr> = ''Bash''
   \<and> extractContentTextSpec
     \<lparr>uuid = ''v'', content = JStr [], toolUse = JObj [(''name'', JStr ''Bash'')],
      toolUseResult = JUndefined\<rparr> = '' Bash''"
  by (simp add: extractSearchableText_def extractContentTextSpec_def pushContentItem_def
       contentPartsSpec_def itemTextSpec_def stringField_def toolResultPartsSpec_def
       hasStringProperty_def isRecord_def Let_def)

section \<open>Occurrence counting\<close>

lemma countNonOverlapping_Nil: "countNonOverlapping [] q = 0"
  by (subst countNonOverlapping.simps) simp

lemma indexOf_here: "p \<le> length s \<Longrightarrow> prefix q (drop p s) \<Longrightarrow> indexOf s q p = Some p"
  by (cases "drop p s") (auto simp: indexOf_def min_def)

lemma indexOf_skip:
  assumes "p < length s" "\<not> prefix q (drop p s)"
  shows "indexOf s q p = indexOf s q (Suc p)"
proof -
  from assms(1) have d: "drop p s = s ! p # drop (Suc p) s" by (simp add: Cons_nth_drop_Suc)
  show ?thesis using assms by (simp add: indexOf_def min_def d)
qed

lemma indexOf_end: "q \<noteq> [] \<Longrightarrow> length s \<le> p \<Longrightarrow> indexOf s q p = None"
  by (simp add: indexOf_def min_def)

lemma findAllMatchesLoop_count:
  assumes "q \<noteq> []"
  shows "p \<le> length s \<Longrightarrow> findAllMatchesLoop s q c p = Some (c + countNonOverlapping (drop p s) q)"
proof (induction "length s - p" arbitrary: p c rule: less_induct)
  case less
  show ?case
  proof (cases "p = length s")
    case True
    then have "indexOf s q p = None" using assms by (simp add: indexOf_end)
    then show ?thesis using True
      by (simp add: findAllMatchesLoop.simps countNonOverlapping_Nil)
  next
    case False
    with less.prems have lt: "p < length s" by simp
    then have ne: "drop p s \<noteq> []" by simp
    show ?thesis
    proof (cases "prefix q (drop p s)")
      case True
      then have le: "p + length q \<le> length s"
        using prefix_length_le[OF True] lt by simp
      have "length s - (p + length q) < length s - p" using assms lt by (cases q) auto
      from less.hyps[OF this le, of "c + 1"]
      have "findAllMatchesLoop s q (c + 1) (p + length q) =
              Some (c + 1 + countNonOverlapping (drop (p + length q) s) q)" .
      moreover have "indexOf s q p = Some p" using less.prems True by (rule indexOf_here)
      moreover have "countNonOverlapping (drop p s) q =
                       1 + countNonOverlapping (drop (length q) (drop p s)) q"
        using True ne assms by (subst countNonOverlapping.simps) simp
      ultimately show ?thesis
        by (subst findAllMatchesLoop.simps) (simp add: add.commute)
    next
      case False
      have "length s - Suc p < length s - p" using lt by simp
      from less.hyps[OF this, of c] lt
      have "findAllMatchesLoop s q c (Suc p) = Some (c + countNonOverlapping (drop (Suc p) s) q)"
        by simp
      moreover have "findAllMatchesLoop s q c p = findAllMatchesLoop s q c (Suc p)"
        using indexOf_skip[OF lt False]
        by (subst findAllMatchesLoop.simps, subst (2) findAllMatchesLoop.simps) simp
      moreover have "countNonOverlapping (drop p s) q = countNonOverlapping (tl (drop p s)) q"
        using False ne assms by (subst countNonOverlapping.simps) simp
      ultimately show ?thesis by (simp add: drop_Suc tl_drop)
    qed
  qed
qed

lemma findAllMatchesInText_count:
  "q \<noteq> [] \<Longrightarrow>
   findAllMatchesInText text q = Some (countNonOverlapping (toLowerCase text) (toLowerCase q))"
  using findAllMatchesLoop_count[of "toLowerCase q" 0 "toLowerCase text" 0]
  by (simp add: findAllMatchesInText_def toLowerCase_Nil_iff)

text \<open>
  Claim C2: for every text and every non-empty query, \<open>findAllMatchesInText\<close> returns, and
  its result is the number of non-overlapping, case-insensitive occurrences of the query
  found by the left-to-right scan that moves on by the query's length after each match;
  for the text \<open>aaaa\<close> and the query \<open>aa\<close> it is 2.
\<close>

theorem nonoverlapping_count:
  "(q \<noteq> [] \<longrightarrow>
      findAllMatchesInText text q =
        Some (countNonOverlapping (toLowerCase text) (toLowerCase q)))
   \<and> findAllMatchesInText ''aaaa'' ''aa'' = Some 2"
proof -
  have "findAllMatchesInText ''aaaa'' ''aa'' =
          Some (countNonOverlapping (toLowerCase ''aaaa'') (toLowerCase ''aa''))"
    by (rule findAllMatchesInText_count) simp
  also have "countNonOverlapping (toLowerCase ''aaaa'') (toLowerCase ''aa'') = 2"
    by code_simp
  finally show ?thesis by (simp add: findAllMatchesInText_count)
qed

theorem nonoverlapping_count_witness:
  "''Ab'' \<noteq> [] \<and> findAllMatchesInText ''abxABAbab'' ''Ab'' = Some 4"
proof -
  have "countNonOverlapping (toLowerCase ''abxABAbab'') (toLowerCase ''Ab'') = 4"
    by code_simp
  then show ?thesis using nonoverlapping_count[of "''Ab''" "''abxABAbab''"] by simp
qed

section \<open>Navigation\<close>

lemma js_rem_nonneg: "0 \<le> a \<Longrightarrow> 0 < b \<Longrightarrow> js_rem a b = a mod b"
  by (cases "a = 0") (simp_all add: js_rem_def)

lemma goToNextMatch_sessionSearch:
  "matches (sessionSearch st) \<noteq> [] \<Longrightarrow>
   sessionSearch (goToNextMatch st) =
     (sessionSearch st)\<lparr>currentMatchIndex :=
        js_rem (currentMatchIndex (sessionSearch st) + 1)
          (int (length (matches (sessionSearch st))))\<rparr>"
  by (simp add: goToNextMatch_def Let_def)

lemma goToNextMatch_iterate:
  assumes "matches (sessionSearch st) \<noteq> []" "0 \<le> currentMatchIndex (sessionSearch st)"
  shows "sessionSearch ((goToNextMatch ^^ Suc k) st) =
     (sessionSearch st)\<lparr>currentMatchIndex :=
        (currentMatchIndex (sessionSearch st) + int (Suc k))
          mod int (length (matches (sessionSearch st)))\<rparr>"
proof (induction k)
  case 0
  show ?case using assms by (simp add: goToNextMatch_sessionSearch js_rem_nonneg)
next
  case (Suc k)
  let ?n = "int (length (matches (sessionSearch st)))"
  let ?c = "currentMatchIndex (sessionSearch st)"
  let ?st = "(goToNextMatch ^^ Suc k) st"
  have npos: "0 < ?n" using assms by simp
  have m: "matches (sessionSearch ?st) \<noteq> []"
    using Suc assms by simp
  have "0 \<le> (?c + int (Suc k)) mod ?n" using npos by simp
  then have "js_rem ((?c + int (Suc k)) mod ?n + 1) ?n = (?c + int (Suc (Suc k))) mod ?n"
    using npos by (simp add: js_rem_nonneg mod_simps ac_simps)
  moreover have "(goToNextMatch ^^ Suc (Suc k)) st = goToNextMatch ?st" by simp
  ultimately show ?case
    using goToNextMatch_sessionSearch[OF m] Suc by simp
qed

lemma sample_setQuery:
  "setSessionSearchQuery substringEngine sampleIndex sampleStore ''Hello'' = Some searchedStore"
  by code_simp


text \<open>
  Claim C4: in a state with a non-empty match list of length \<open>n\<close>, \<open>next\<close> sets the cursor
  to JavaScript's \<open>(cursor + 1) % n\<close>, which is \<open>(cursor + 1) mod n\<close> for every cursor from
  \<open>-1\<close> on; \<open>n\<close> calls of \<open>next\<close> from cursor 0 lead back to cursor 0; \<open>prev\<close> sets the
  cursor to \<open>n - 1\<close> when it is at most 0 and to \<open>cursor - 1\<close> otherwise, so from cursor 0
  it yields \<open>n - 1\<close>. With an empty match list both leave the store unchanged.
\<close>

theorem cyclic_navigation:
  "(matches (sessionSearch st) \<noteq> [] \<longrightarrow>
      currentMatchIndex (sessionSearch (goToNextMatch st)) =
        js_rem (currentMatchIndex (sessionSearch st) + 1)
          (int (length (matches (sessionSearch st))))
    \<and> (- 1 \<le> currentMatchIndex (sessionSearch st) \<longrightarrow>
         currentMatchIndex (sessionSearch (goToNextMatch st)) =
           (currentMatchIndex (sessionSearch st) + 1)
             mod int (length (matches (sessionSearch st))))
    \<and> (currentMatchIndex (sessionSearch st) = 0 \<longrightarrow>
         currentMatchIndex
           (sessionSearch ((goToNextMatch ^^ length (matches (sessionSearch st))) st)) = 0)
    \<and> currentMatchIndex (sessionSearch (goToPrevMatch st)) =
        (if currentMatchIndex (sessionSearch st) \<le> 0
         then int (length (matches (sessionSearch st))) - 1
         else currentMatchIndex (sessionSearch st) - 1)
    \<and> (currentMatchIndex (sessionSearch st) = 0 \<longrightarrow>
         currentMatchIndex (sessionSearch (goToPrevMatch st)) =
           int (length (matches (sessionSearch st))) - 1))
   \<and> (matches (sessionSearch st) = [] \<longrightarrow> goToNextMatch st = st \<and> goToPrevMatch st = st)"
proof -
  let ?ss = "sessionSearch st"
  let ?n = "int (length (matches ?ss))"
  {
    assume ne: "matches ?ss \<noteq> []"
    then have npos: "0 < ?n" by simp
    have a: "currentMatchIndex (sessionSearch (goToNextMatch st)) =
               js_rem (currentMatchIndex ?ss + 1) ?n"
      using ne by (simp add: goToNextMatch_sessionSearch)
    have b: "- 1 \<le> currentMatchIndex ?ss \<Longrightarrow>
               currentMatchIndex (sessionSearch (goToNextMatch st)) =
                 (currentMatchIndex ?ss + 1) mod ?n"
      using a npos by (simp add: js_rem_nonneg)
    have c: "currentMatchIndex (sessionSearch ((goToNextMatch ^^ length (matches ?ss)) st)) = 0"
      if z: "currentMatchIndex ?ss = 0"
    proof -
      obtain k where k: "length (matches ?ss) = Suc k" using ne by (cases "matches ?ss") auto
      show ?thesis
        using goToNextMatch_iterate[OF ne, of k] z unfolding k[symmetric] by simp
    qed
    have d: "currentMatchIndex (sessionSearch (goToPrevMatch st)) =
               (if currentMatchIndex ?ss \<le> 0 then ?n - 1 else currentMatchIndex ?ss - 1)"
      using ne by (simp add: goToPrevMatch_def Let_def)
    note a b c d
  }
  moreover have "matches ?ss = [] \<Longrightarrow> goToNextMatch st = st \<and> goToPrevMatch st = st"
    by (simp add: goToNextMatch_def goToPrevMatch_def)
  ultimately show ?thesis by simp
qed

theorem cyclic_navigation_witness:
  "matches (sessionSearch searchedStore) \<noteq> []
   \<and> currentMatchIndex (sessionSearch searchedStore) = 0
   \<and> currentMatchIndex (sessionSearch (goToNextMatch searchedStore)) = 1
   \<and> currentMatchIndex (sessionSearch (goToNextMatch (goToNextMatch searchedStore))) = 0
   \<and> currentMatchIndex (sessionSearch (goToPrevMatch searchedStore)) = 1
   \<and> matches (sessionSearch sampleStore) = []
   \<and> goToNextMatch sampleStore = sampleStore
   \<and> goToPrevMatch sampleStore = sampleStore"
proof -
  have s: "matches (sessionSearch searchedStore) = sampleMatches"
    "currentMatchIndex (sessionSearch searchedStore) = 0"
    "length sampleMatches = 2"
    by (simp_all add: searchedStore_def sampleMatches_def)
  have e: "matches (sessionSearch sampleStore) = []"
    by (simp add: sampleStore_def initialSearchState_def)
  have two: "(goToNextMatch ^^ 2) searchedStore = goToNextMatch (goToNextMatch searchedStore)"
    by (simp add: numeral_2_eq_2)
  have ne: "sampleMatches \<noteq> []" by (simp add: sampleMatches_def)
  show ?thesis
    using cyclic_navigation[of searchedStore] cyclic_navigation[of sampleStore]
    by (simp add: s e two ne)
qed

text \<open>
  Claim C6: \<open>jumpTo i\<close> with \<open>i\<close> outside \<open>[0, len)\<close> leaves the store unchanged; with
  \<open>i\<close> inside \<open>[0, len)\<close> it sets the cursor to \<open>i\<close>.
\<close>

theorem jumpTo_bounds:
  "((i < 0 \<or> int (length (matches (sessionSearch st))) \<le> i) \<longrightarrow> goToMatchIndex st i = st)
   \<and> ((0 \<le> i \<and> i < int (length (matches (sessionSearch st)))) \<longrightarrow>
        currentMatchIndex (sessionSearch (goToMatchIndex st i)) = i)"
  by (simp add: goToMatchIndex_def Let_def)

theorem jumpTo_bounds_witness:
  "int (length (matches (sessionSearch searchedStore))) = 2
   \<and> goToMatchIndex searchedStore 2 = searchedStore
   \<and> goToMatchIndex searchedStore (- 1) = searchedStore
   \<and> currentMatchIndex (sessionSearch (goToMatchIndex searchedStore 1)) = 1"
proof -
  have l: "int (length (matches (sessionSearch searchedStore))) = 2"
    by (simp add: searchedStore_def sampleMatches_def)
  show ?thesis
    using jumpTo_bounds[of 2 searchedStore] jumpTo_bounds[of "- 1" searchedStore]
      jumpTo_bounds[of 1 searchedStore]
    by (simp add: l)
qed

text \<open>
  Claim C9: \<open>setFilterType field\<close> resets the search state to the idle state (empty query,
  no matches, cursor \<open>-1\<close>, not searching) with the new field as filter type; \<open>clear\<close>
  resets it to the idle state and keeps the filter type.
\<close>

theorem reset_operations:
  "sessionSearch (setSearchFilterType st ft) =
     \<lparr>query = [], matches = [], currentMatchIndex = - 1, isSearching = False,
      filterType = ft, results = []\<rparr>
   \<and> sessionSearch (clearSessionSearch st) =
     \<lparr>query = [], matches = [], currentMatchIndex = - 1, isSearching = False,
      filterType = filterType (sessionSearch st), results = []\<rparr>
   \<and> messages (setSearchFilterType st ft) = messages st
   \<and> messages (clearSessionSearch st) = messages st"
  by (simp add: setSearchFilterType_def clearSessionSearch_def createEmptySearchState_def)

text \<open>
  Claim C10: \<open>next\<close>, \<open>prev\<close> and \<open>jumpTo i\<close> leave the query, the matches, the filter
  type and the searching flag (and the legacy results and the messages) unchanged.
\<close>

theorem navigation_frame:
  "query (sessionSearch (goToNextMatch st)) = query (sessionSearch st)
   \<and> matches (sessionSearch (goToNextMatch st)) = matches (sessionSearch st)
   \<and> filterType (sessionSearch (goToNextMatch st)) = filterType (sessionSearch st)
   \<and> isSearching (sessionSearch (goToNextMatch st)) = isSearching (sessionSearch st)
   \<and> results (sessionSearch (goToNextMatch st)) = results (sessionSearch st)
   \<and> messages (goToNextMatch st) = messages st
   \<and> query (sessionSearch (goToPrevMatch st)) = query (sessionSearch st)
   \<and> matches (sessionSearch (goToPrevMatch st)) = matches (sessionSearch st)
   \<and> filterType (sessionSearch (goToPrevMatch st)) = filterType (sessionSearch st)
   \<and> isSearching (sessionSearch (goToPrevMatch st)) = isSearching (sessionSearch st)
   \<and> results (sessionSearch (goToPrevMatch st)) = results (sessionSearch st)
   \<and> messages (goToPrevMatch st) = messages st
   \<and> query (sessionSearch (goToMatchIndex st i)) = query (sessionSearch st)
   \<and> matches (sessionSearch (goToMatchIndex st i)) = matches (sessionSearch st)
   \<and> filterType (sessionSearch (goToMatchIndex st i)) = filterType (sessionSearch st)
   \<and> isSearching (sessionSearch (goToMatchIndex st i)) = isSearching (sessionSearch st)
   \<and> results (sessionSearch (goToMatchIndex st i)) = results (sessionSearch st)
   \<and> messages (goToMatchIndex st i) = messages st"
  by (simp add: goToNextMatch_def goToPrevMatch_def goToMatchIndex_def Let_def)

section \<open>The cursor invariant\<close>

lemma cursorValid_setQuery:
  "setSessionSearchQuery flex idx st q = Some st' \<Longrightarrow> cursorValid (sessionSearch st')"
  by (auto simp: setSessionSearchQuery_def Let_def cursorValid_def createEmptySearchState_def
           split: if_splits option.splits sum.splits)

lemma cursorValid_next:
  assumes "cursorValid (sessionSearch st)"
  shows "cursorValid (sessionSearch (goToNextMatch st))"
proof (cases "matches (sessionSearch st) = []")
  case True
  then show ?thesis using assms by (simp add: goToNextMatch_def)
next
  case False
  let ?n = "int (length (matches (sessionSearch st)))"
  let ?c = "currentMatchIndex (sessionSearch st)"
  from False have npos: "0 < ?n" by simp
  from assms have "0 \<le> ?c + 1" by (auto simp: cursorValid_def)
  then have "js_rem (?c + 1) ?n = (?c + 1) mod ?n" using npos by (rule js_rem_nonneg)
  moreover have "0 \<le> (?c + 1) mod ?n" "(?c + 1) mod ?n < ?n" using npos by simp_all
  ultimately show ?thesis
    using False by (simp add: goToNextMatch_sessionSearch cursorValid_def)
qed

text \<open>
  Claim C8, as amended: in every state reachable by \<open>setQuery\<close>, \<open>next\<close>, \<open>prev\<close>,
  \<open>jumpTo\<close> with an integer argument, \<open>setFilterType\<close> and \<open>clear\<close>, the cursor is
  \<open>-1\<close> or a valid index into the matches.
\<close>

theorem cursor_invariant: "reachable flex st \<Longrightarrow> cursorValid (sessionSearch st)"
proof (induction rule: reachable.induct)
  case (init msgs)
  show ?case by (simp add: cursorValid_def initialSearchState_def)
next
  case (setQuery st idx q st')
  then show ?case by (simp add: cursorValid_setQuery)
next
  case (goNext st)
  then show ?case by (simp add: cursorValid_next)
next
  case (goPrev st)
  then show ?case by (auto simp: goToPrevMatch_def Let_def cursorValid_def)
next
  case (jumpTo st i)
  then show ?case by (auto simp: goToMatchIndex_def Let_def cursorValid_def)
next
  case (setFilterType st ft)
  show ?case by (simp add: setSearchFilterType_def createEmptySearchState_def cursorValid_def)
next
  case (clearSearch st)
  show ?case by (simp add: clearSessionSearch_def createEmptySearchState_def cursorValid_def)
qed

theorem cursor_invariant_witness:
  "reachable substringEngine (goToPrevMatch searchedStore)
   \<and> cursorValid (sessionSearch (goToPrevMatch searchedStore))
   \<and> currentMatchIndex (sessionSearch (goToPrevMatch searchedStore)) = 1"
proof -
  have "reachable substringEngine sampleStore"
    unfolding sampleStore_def by (rule reachable.init)
  then have "reachable substringEngine searchedStore"
    using sample_setQuery by (rule reachable.setQuery)
  then have r: "reachable substringEngine (goToPrevMatch searchedStore)"
    by (rule reachable.goPrev)
  have "currentMatchIndex (sessionSearch (goToPrevMatch searchedStore)) = 1"
    by (simp add: goToPrevMatch_def searchedStore_def sampleMatches_def)
  then show ?thesis using r cursor_invariant[OF r] by simp
qed


text \<open>
  On integers, the jump at a \<^verbatim>\<open>number\<close> is the jump at an integer, and the two forms of
  the invariant agree.
\<close>

lemma goToMatchIndexNumber_int:
  "goToMatchIndexNumber (numberStore st) (Num (of_int i)) = numberStore (goToMatchIndex st i)"
  by (simp add: goToMatchIndexNumber_def goToMatchIndex_def numberStore_def Let_def)

lemma cursorValidNumber_int:
  "cursorValidNumber (sessionSearch (numberStore st)) = cursorValid (sessionSearch st)"
proof -
  let ?c = "currentMatchIndex (sessionSearch st)"
  let ?n = "length (matches (sessionSearch st))"
  have "(\<exists>k<?n. (of_int ?c :: rat) = of_nat k) \<longleftrightarrow> (0 \<le> ?c \<and> ?c < int ?n)"
  proof
    assume "\<exists>k<?n. (of_int ?c :: rat) = of_nat k"
    then obtain k where k: "k < ?n" "(of_int ?c :: rat) = of_int (int k)" by auto
    then have "?c = int k" by (simp only: of_int_eq_iff)
    then show "0 \<le> ?c \<and> ?c < int ?n" using k(1) by simp
  next
    assume a: "0 \<le> ?c \<and> ?c < int ?n"
    then have "nat ?c < ?n" by linarith
    moreover have "(of_int ?c :: rat) = of_nat (nat ?c)" using a by simp
    ultimately show "\<exists>k<?n. (of_int ?c :: rat) = of_nat k" by blast
  qed
  moreover have "(of_int ?c :: rat) = - 1 \<longleftrightarrow> ?c = - 1"
    using of_int_eq_iff[of ?c "- 1", where ?'a = rat] by simp
  ultimately show ?thesis
    by (auto simp: cursorValidNumber_def cursorValid_def numberStore_def)
qed

lemma sample_reachable: "reachable substringEngine searchedStore"
proof -
  have "reachable substringEngine sampleStore"
    unfolding sampleStore_def by (rule reachable.init)
  then show ?thesis using sample_setQuery by (rule reachable.setQuery)
qed

text \<open>
  Claim C8, as stated for every argument of \<open>jumpTo\<close>, fails: in the reachable state
  with two matches, the arguments \<open>0.5\<close> and \<^verbatim>\<open>NaN\<close> pass the bounds guard and become
  the cursor, which is then neither \<open>-1\<close> nor an index into the matches.
\<close>

theorem cursor_invariant_counterexample:
  "reachable substringEngine searchedStore
   \<and> currentMatchIndex (sessionSearch
        (goToMatchIndexNumber (numberStore searchedStore) (Num (1 / 2)))) = Num (1 / 2)
   \<and> \<not> cursorValidNumber (sessionSearch
        (goToMatchIndexNumber (numberStore searchedStore) (Num (1 / 2))))
   \<and> currentMatchIndex (sessionSearch
        (goToMatchIndexNumber (numberStore searchedStore) NaN)) = NaN
   \<and> \<not> cursorValidNumber (sessionSearch
        (goToMatchIndexNumber (numberStore searchedStore) NaN))"
proof -
  have l: "length sampleMatches = 2" "[0..<2] = [0, Suc 0]"
    by (simp_all add: sampleMatches_def upt_rec)
  show ?thesis
    using sample_reachable
    by (simp add: goToMatchIndexNumber_def numberStore_def searchedStore_def cursorValidNumber_def
          Let_def l)
qed

section \<open>Search\<close>

lemma matchesOfUuid_returns:
  "lq \<noteq> [] \<Longrightarrow> \<exists>ms. matchesOfUuid idx ft lq u = Some ms"
  by (simp add: matchesOfUuid_def Let_def findAllMatchesInText_count split: option.splits)

lemma collectMatches_returns:
  "lq \<noteq> [] \<Longrightarrow> \<exists>ms. collectMatches idx ft lq us acc = Some ms"
proof (induction us arbitrary: acc)
  case Nil
  show ?case by simp
next
  case (Cons u us)
  from matchesOfUuid_returns[OF Cons.prems, of idx ft u]
  obtain ms where "matchesOfUuid idx ft lq u = Some ms" ..
  then show ?case using Cons.IH[OF Cons.prems] by simp
qed

lemma search_guarded:
  "\<not> isBuilt idx \<or> trim q = [] \<Longrightarrow> search flex idx q ft = Some (Inr [])"
  by (simp add: search_def)

lemma search_unguarded:
  "isBuilt idx \<Longrightarrow> trim q \<noteq> [] \<Longrightarrow>
   search flex idx q ft =
     (case flex (if ft = ToolId then toolIdIndex idx else contentIndex idx) (toLowerCase q) 1000 of
        Inl e \<Rightarrow> Some (Inl e)
      | Inr rs \<Rightarrow>
          (case collectMatches idx ft (toLowerCase q) (collectUuids rs) [] of
             None \<Rightarrow> None
           | Some allMatches \<Rightarrow> Some (Inr (sortBy compareMatches allMatches))))"
  by (simp add: search_def Let_def)

lemma search_returns: "\<exists>out. search flex idx q ft = Some out"
proof (cases "\<not> isBuilt idx \<or> trim q = []")
  case True
  then show ?thesis by (simp add: search_guarded)
next
  case False
  then have b: "isBuilt idx" and t: "trim q \<noteq> []" by simp_all
  have lq: "toLowerCase q \<noteq> []"
    using trim_nonempty[OF t] by (simp add: toLowerCase_Nil_iff)
  let ?index = "if ft = ToolId then toolIdIndex idx else contentIndex idx"
  show ?thesis
  proof (cases "flex ?index (toLowerCase q) 1000")
    case (Inl e)
    then show ?thesis by (simp add: search_unguarded[OF b t])
  next
    case (Inr rs)
    from collectMatches_returns[OF lq, of idx ft "collectUuids rs" "[]"]
    obtain ms where "collectMatches idx ft (toLowerCase q) (collectUuids rs) [] = Some ms" ..
    then show ?thesis using Inr by (simp add: search_unguarded[OF b t])
  qed
qed

lemma search_sorted:
  assumes "search flex idx q ft = Some (Inr r)"
  shows "\<exists>xs. r = sortBy compareMatches xs"
proof (cases "\<not> isBuilt idx \<or> trim q = []")
  case True
  then have "r = []" using assms by (simp add: search_guarded)
  then have "r = sortBy compareMatches []" by (simp add: sortBy_def)
  then show ?thesis ..
next
  case False
  then have b: "isBuilt idx" and t: "trim q \<noteq> []" by simp_all
  let ?index = "if ft = ToolId then toolIdIndex idx else contentIndex idx"
  show ?thesis
  proof (cases "flex ?index (toLowerCase q) 1000")
    case (Inl e)
    then show ?thesis using assms by (simp add: search_unguarded[OF b t])
  next
    case (Inr rs)
    show ?thesis
    proof (cases "collectMatches idx ft (toLowerCase q) (collectUuids rs) []")
      case None
      then show ?thesis using assms Inr by (simp add: search_unguarded[OF b t])
    next
      case (Some ms)
      then have "r = sortBy compareMatches ms"
        using assms Inr by (simp add: search_unguarded[OF b t])
      then show ?thesis ..
    qed
  qed
qed

lemma set_insertBy: "set (insertBy cmp x xs) = insert x (set xs)"
  by (induction xs) auto

lemma compareMatches_le:
  "compareMatches a b \<le> 0 \<longleftrightarrow>
     messageIndex b < messageIndex a
     \<or> (messageIndex a = messageIndex b \<and> matchIndex b \<le> matchIndex a)"
  by (auto simp: compareMatches_def)

lemma sorted_insertBy:
  "sorted_wrt (\<lambda>a b. compareMatches a b \<le> 0) xs \<Longrightarrow>
   sorted_wrt (\<lambda>a b. compareMatches a b \<le> 0) (insertBy compareMatches x xs)"
proof (induction xs)
  case Nil
  show ?case by simp
next
  case (Cons y ys)
  show ?case
  proof (cases "compareMatches x y \<le> 0")
    case True
    have "compareMatches x z \<le> 0" if "z \<in> set ys" for z
      using True Cons.prems that unfolding compareMatches_le by fastforce
    then show ?thesis using True Cons.prems by simp
  next
    case False
    then have "compareMatches y x \<le> 0" unfolding compareMatches_le by auto
    then show ?thesis using False Cons by (auto simp: set_insertBy)
  qed
qed

lemma sorted_sortBy: "sorted_wrt (\<lambda>a b. compareMatches a b \<le> 0) (sortBy compareMatches xs)"
  by (induction xs) (simp_all add: sortBy_def sorted_insertBy)

lemma sample_search:
  "search substringEngine sampleIndex ''hello'' Content = Some (Inr sampleMatches)"
  by code_simp

text \<open>
  Claim C1: for every index, query and field, \<open>search\<close> returns or throws, and in a
  returned match list a match with the larger message index stands before one with a
  smaller message index, and among matches of one message the one with the larger match
  index stands first.
\<close>

theorem search_ordering:
  "(\<exists>out. search flex idx q ft = Some out)
   \<and> (\<forall>r i j. search flex idx q ft = Some (Inr r) \<and> i < length r \<and> j < length r \<longrightarrow>
        (messageIndex (r ! j) < messageIndex (r ! i) \<longrightarrow> i < j)
        \<and> (messageIndex (r ! i) = messageIndex (r ! j) \<and> matchIndex (r ! j) < matchIndex (r ! i)
             \<longrightarrow> i < j))"
proof (rule conjI[OF search_returns], rule allI, rule allI, rule allI, rule impI)
  fix r i j
  assume h: "search flex idx q ft = Some (Inr r) \<and> i < length r \<and> j < length r"
  then have r: "search flex idx q ft = Some (Inr r)" and i: "i < length r" by simp_all
  from search_sorted[OF r] obtain xs where "r = sortBy compareMatches xs" ..
  then have s: "sorted_wrt (\<lambda>a b. compareMatches a b \<le> 0) r"
    by (simp add: sorted_sortBy)
  have le: "compareMatches (r ! j) (r ! i) \<le> 0" if "j < i"
    using s that i by (simp add: sorted_wrt_iff_nth_less)
  have 1: "i < j" if m: "messageIndex (r ! j) < messageIndex (r ! i)"
  proof (rule ccontr)
    assume "\<not> i < j"
    then have "j < i" using m by (cases "i = j") auto
    from le[OF this] m show False unfolding compareMatches_le by auto
  qed
  have 2: "i < j"
    if m: "messageIndex (r ! i) = messageIndex (r ! j) \<and> matchIndex (r ! j) < matchIndex (r ! i)"
  proof (rule ccontr)
    assume "\<not> i < j"
    then have "j < i" using m by (cases "i = j") auto
    from le[OF this] m show False unfolding compareMatches_le by auto
  qed
  show "(messageIndex (r ! j) < messageIndex (r ! i) \<longrightarrow> i < j)
        \<and> (messageIndex (r ! i) = messageIndex (r ! j) \<and> matchIndex (r ! j) < matchIndex (r ! i)
             \<longrightarrow> i < j)"
    using 1 2 by (intro conjI impI)
qed

theorem search_ordering_witness:
  "search substringEngine sampleIndex ''hello'' Content = Some (Inr sampleMatches)
   \<and> (1::nat) < length sampleMatches
   \<and> messageIndex (sampleMatches ! 1) < messageIndex (sampleMatches ! 0)
   \<and> (0::nat) < 1"
proof -
  have a: "(1::nat) < length sampleMatches" "(0::nat) < length sampleMatches"
    and b: "messageIndex (sampleMatches ! 1) < messageIndex (sampleMatches ! 0)"
    by (simp_all add: sampleMatches_def)
  from search_ordering[of substringEngine sampleIndex "''hello''" Content]
  have "\<forall>r i j. search substringEngine sampleIndex ''hello'' Content = Some (Inr r)
                 \<and> i < length r \<and> j < length r \<longrightarrow>
        (messageIndex (r ! j) < messageIndex (r ! i) \<longrightarrow> i < j)
        \<and> (messageIndex (r ! i) = messageIndex (r ! j) \<and> matchIndex (r ! j) < matchIndex (r ! i)
             \<longrightarrow> i < j)"
    by (rule conjunct2)
  from this[rule_format, of sampleMatches 0 1] sample_search a b
  have "(0::nat) < 1" by blast
  then show ?thesis using sample_search a b by (intro conjI)
qed


text \<open>
  Claim C7: \<open>search\<close> returns the empty list when the query is empty or all whitespace,
  on an index that was never built, and on a cleared index, whatever was built before;
  a build marks the index as built again.
\<close>

theorem search_empty:
  "((\<forall>c \<in> set q. is_whitespace c) \<longrightarrow> search flex idx q ft = Some (Inr []))
   \<and> search flex newMessageSearchIndex q ft = Some (Inr [])
   \<and> search flex (clear idx) q ft = Some (Inr [])
   \<and> search flex (clear (build idx msgs)) q ft = Some (Inr [])
   \<and> isBuilt (build idx msgs)"
  by (simp add: search_def trim_Nil_iff newMessageSearchIndex_def clear_def build_def Let_def)

theorem search_empty_witness:
  "search substringEngine sampleIndex [CHR '' '', CHR 0x09] Content = Some (Inr [])
   \<and> search substringEngine sampleIndex [] Content = Some (Inr [])
   \<and> search substringEngine sampleIndex ''hello'' Content = Some (Inr sampleMatches)
   \<and> search substringEngine (clear sampleIndex) ''hello'' Content = Some (Inr [])
   \<and> search substringEngine newMessageSearchIndex ''hello'' Content = Some (Inr [])"
  using search_empty[of "[CHR '' '', CHR 0x09]" substringEngine sampleIndex Content sampleMessages]
    search_empty[of "[]" substringEngine sampleIndex Content sampleMessages]
    search_empty[of "''hello''" substringEngine sampleIndex Content sampleMessages]
    sample_search
  by (simp add: is_whitespace_def)

section \<open>Setting the query\<close>

lemma SearchMatch_copy:
  "map (\<lambda>r. \<lparr>messageUuid = messageUuid r, messageIndex = messageIndex r,
              matchIndex = matchIndex r, matchCount = matchCount r\<rparr>) xs = xs"
  by (induction xs) simp_all

text \<open>
  Claim C5: for a query that is not all whitespace, \<open>setQuery\<close> returns; the new state
  holds the query, is not searching, and its cursor is 0 if its match list is non-empty
  and \<open>-1\<close> if it is empty. When the search returns a list, the match list is that list
  restricted to the message indexes of the store; when the search throws, the match list
  is empty, the cursor is \<open>-1\<close> and the query is kept.
\<close>

theorem setQuery_outcome:
  assumes "\<not> (\<forall>c \<in> set q. is_whitespace c)"
  shows "\<exists>st'. setSessionSearchQuery flex idx st q = Some st'
     \<and> query (sessionSearch st') = q
     \<and> isSearching (sessionSearch st') = False
     \<and> filterType (sessionSearch st') = filterType (sessionSearch st)
     \<and> messages st' = messages st
     \<and> currentMatchIndex (sessionSearch st') =
         (if matches (sessionSearch st') \<noteq> [] then 0 else - 1)
     \<and> (\<forall>r. search flex idx q (filterType (sessionSearch st)) = Some (Inr r) \<longrightarrow>
          matches (sessionSearch st') = filter (\<lambda>m. messageIndex m < length (messages st)) r)
     \<and> (\<forall>e. search flex idx q (filterType (sessionSearch st)) = Some (Inl e) \<longrightarrow>
          matches (sessionSearch st') = [] \<and> currentMatchIndex (sessionSearch st') = - 1
          \<and> query (sessionSearch st') = q)"
proof -
  from assms have t: "trim q \<noteq> []" by (simp add: trim_Nil_iff)
  obtain out where out: "search flex idx q (filterType (sessionSearch st)) = Some out"
    using search_returns by blast
  show ?thesis
  proof (cases out)
    case (Inl e)
    then show ?thesis using t out by (simp add: setSessionSearchQuery_def Let_def)
  next
    case (Inr r)
    then show ?thesis using t out
      by (simp add: setSessionSearchQuery_def Let_def SearchMatch_copy)
  qed
qed

theorem setQuery_outcome_witness:
  "setSessionSearchQuery substringEngine sampleIndex sampleStore ''Hello'' = Some searchedStore
   \<and> currentMatchIndex (sessionSearch searchedStore) = 0
   \<and> matches (sessionSearch searchedStore) = sampleMatches
   \<and> (\<exists>st'. setSessionSearchQuery substringEngine sampleIndex sampleStore ''zebra'' = Some st'
         \<and> query (sessionSearch st') = ''zebra'' \<and> matches (sessionSearch st') = []
         \<and> currentMatchIndex (sessionSearch st') = - 1)
   \<and> (\<exists>st'. setSessionSearchQuery failingEngine sampleIndex sampleStore ''Hello'' = Some st'
         \<and> query (sessionSearch st') = ''Hello'' \<and> matches (sessionSearch st') = []
         \<and> currentMatchIndex (sessionSearch st') = - 1)"
proof -
  have w: "\<not> (\<forall>c \<in> set ''Hello''. is_whitespace c)" "\<not> (\<forall>c \<in> set ''zebra''. is_whitespace c)"
    by (simp_all add: is_whitespace_def)
  have ft: "filterType (sessionSearch sampleStore) = Content" "messages sampleStore = sampleMessages"
    by (simp_all add: sampleStore_def initialSearchState_def)
  have z: "search substringEngine sampleIndex ''zebra'' Content = Some (Inr [])"
    by code_simp
  have f: "search failingEngine sampleIndex ''Hello'' Content =
             Some (Inl (SearchFailure ''index unavailable''))"
    by code_simp
  have s: "currentMatchIndex (sessionSearch searchedStore) = 0"
    "matches (sessionSearch searchedStore) = sampleMatches"
    by (simp_all add: searchedStore_def)
  from setQuery_outcome[OF w(2), of substringEngine sampleIndex sampleStore]
  have 1: "\<exists>st'. setSessionSearchQuery substringEngine sampleIndex sampleStore ''zebra'' = Some st'
         \<and> query (sessionSearch st') = ''zebra'' \<and> matches (sessionSearch st') = []
         \<and> currentMatchIndex (sessionSearch st') = - 1"
    unfolding ft using z by auto
  from setQuery_outcome[OF w(1), of failingEngine sampleIndex sampleStore]
  have 2: "\<exists>st'. setSessionSearchQuery failingEngine sampleIndex sampleStore ''Hello'' = Some st'
         \<and> query (sessionSearch st') = ''Hello'' \<and> matches (sessionSearch st') = []
         \<and> currentMatchIndex (sessionSearch st') = - 1"
    unfolding ft using f by auto
  show ?thesis using sample_setQuery s 1 2 by simp
qed


end
